theory Spec2Isabelle
  imports Complex_Main
begin

section \<open>The memory hierarchy of cache_model.py\<close>

text \<open>
  Python integers are unbounded and are modelled as \<open>int\<close>; \<open>//\<close> on integers is floor
  division, which is \<open>div\<close> on \<open>int\<close>. Every exception the source can raise is a value
  of \<open>py_error\<close>, and a function that can raise returns \<open>py_error + 'a\<close>. Objects that
  the source mutates in place are passed in and returned updated.
\<close>

datatype py_error = AssertionError | ZeroDivisionError | IndexError | KeyError | ValueError

text \<open>The attributes of \<open>RamModel\<close> (lines 24-34).\<close>

record ram_state =
  access_penalty :: int
  ram_total_penalty :: int

text \<open>
  The attributes of \<open>CacheModel\<close> (lines 37-51) other than \<open>next_memory\<close>, which is the
  second argument of the constructor \<open>CacheModel\<close> of \<open>memory_model\<close> below.
\<close>

record cache_state =
  n_lines :: int
  line_size :: int
  hit_penalty :: int
  cached_lines_queue :: "int list"
  cached_lines_set :: "int set"
  total_penalty :: int

datatype memory_model =
    RamModel ram_state
  | CacheModel cache_state (next_memory: memory_model)

text \<open>\<open>RamModel.__init__\<close> (lines 25-28).\<close>

definition RamModel_init :: "int \<Rightarrow> memory_model" where
  "RamModel_init p = RamModel \<lparr>access_penalty = p, ram_total_penalty = 0\<rparr>"

text \<open>
  \<open>CacheModel.__init__\<close> (lines 38-51). \<open>assert n_lines\<close> fails exactly when the integer
  is zero; a negative value passes it.
\<close>

definition CacheModel_init :: "int \<Rightarrow> int \<Rightarrow> int \<Rightarrow> memory_model \<Rightarrow> py_error + memory_model" where
  "CacheModel_init nl ls hp nxt =
     (if nl = 0 then Inl AssertionError
      else if ls = 0 then Inl AssertionError
      else Inr (CacheModel
        \<lparr>n_lines = nl, line_size = ls, hit_penalty = hp,
         cached_lines_queue = [], cached_lines_set = {}, total_penalty = 0\<rparr> nxt))"

text \<open>
  \<open>CacheModel._add_to_cache\<close> (lines 59-68). \<open>list.pop(0)\<close> raises IndexError on an empty
  list and \<open>set.remove\<close> raises KeyError on a missing element.
\<close>

definition add_to_cache :: "cache_state \<Rightarrow> int \<Rightarrow> py_error + cache_state" where
  "add_to_cache c line_id =
     (if line_id \<in> cached_lines_set c then Inr c
      else if int (length (cached_lines_queue c)) = n_lines c then
        (case cached_lines_queue c of
           [] \<Rightarrow> Inl IndexError
         | line_to_remove # rest \<Rightarrow>
             if line_to_remove \<in> cached_lines_set c
             then Inr (c\<lparr>cached_lines_queue := rest @ [line_id],
                         cached_lines_set := insert line_id (cached_lines_set c - {line_to_remove})\<rparr>)
             else Inl KeyError)
      else Inr (c\<lparr>cached_lines_queue := cached_lines_queue c @ [line_id],
                  cached_lines_set := insert line_id (cached_lines_set c)\<rparr>))"

text \<open>
  \<open>perform_access\<close> of both classes (lines 30-31 and 70-73) and
  \<open>CacheModel._increment_penalties\<close> (lines 53-57), which calls \<open>perform_access\<close> of the
  next level. \<open>address // self.line_size\<close> raises ZeroDivisionError for a zero line size.
\<close>

function perform_access :: "memory_model \<Rightarrow> int \<Rightarrow> py_error + memory_model"
  and increment_penalties ::
    "cache_state \<Rightarrow> memory_model \<Rightarrow> int \<Rightarrow> int \<Rightarrow> py_error + cache_state \<times> memory_model"
where
  "perform_access (RamModel r) address =
     Inr (RamModel (r\<lparr>ram_total_penalty := ram_total_penalty r + access_penalty r\<rparr>))"
| "perform_access (CacheModel c nxt) address =
     (if line_size c = 0 then Inl ZeroDivisionError
      else
        let line_id = address div line_size c in
        case increment_penalties c nxt line_id address of
          Inl e \<Rightarrow> Inl e
        | Inr (c1, nxt1) \<Rightarrow>
            (case add_to_cache c1 line_id of
               Inl e \<Rightarrow> Inl e
             | Inr c2 \<Rightarrow> Inr (CacheModel c2 nxt1)))"
| "increment_penalties c nxt line_id address =
     (if line_id \<in> cached_lines_set c
      then Inr (c\<lparr>total_penalty := total_penalty c + hit_penalty c\<rparr>, nxt)
      else
        case perform_access nxt address of
          Inl e \<Rightarrow> Inl e
        | Inr nxt1 \<Rightarrow> Inr (c, nxt1))"
  by pat_completeness auto
termination
  by (relation "measure (\<lambda>x. case x of
        Inl (m, a) \<Rightarrow> 2 * size m
      | Inr (c, nxt, l, a) \<Rightarrow> 2 * size nxt + 1)") auto

text \<open>\<open>get_total_penalty\<close> of both classes (lines 33-34 and 75-78).\<close>

fun get_total_penalty :: "memory_model \<Rightarrow> int" where
  "get_total_penalty (RamModel r) = ram_total_penalty r"
| "get_total_penalty (CacheModel c nxt) =
     (let next_memory_penalty = get_total_penalty nxt;
          my_penalty = total_penalty c
      in next_memory_penalty + my_penalty)"

text \<open>
  The loop of \<open>perform_accesses\<close> (lines 82-83): the model object after all accesses, or
  the first exception.
\<close>

fun access_loop :: "memory_model \<Rightarrow> int list \<Rightarrow> py_error + memory_model" where
  "access_loop model [] = Inr model"
| "access_loop model (addr # addresses) =
     (case perform_access model addr of
        Inl e \<Rightarrow> Inl e
      | Inr model1 \<Rightarrow> access_loop model1 addresses)"

text \<open>
  \<open>perform_accesses\<close> (lines 81-84): the returned total, paired with the mutated model.
\<close>

definition perform_accesses :: "memory_model \<Rightarrow> int list \<Rightarrow> py_error + int \<times> memory_model" where
  "perform_accesses model addresses =
     (case access_loop model addresses of
        Inl e \<Rightarrow> Inl e
      | Inr model1 \<Rightarrow> Inr (get_total_penalty model1, model1))"

text \<open>
  The invariant of one cache level, as the specification words it: queue and set have
  the same size, which is at most \<open>n_lines\<close>, the queue has no duplicates, and the set
  holds exactly the elements of the queue.
\<close>

definition cache_invariant :: "cache_state \<Rightarrow> bool" where
  "cache_invariant c \<longleftrightarrow>
     length (cached_lines_queue c) = card (cached_lines_set c) \<and>
     int (card (cached_lines_set c)) \<le> n_lines c \<and>
     distinct (cached_lines_queue c) \<and>
     cached_lines_set c = set (cached_lines_queue c)"

text \<open>
  A cache level whose capacity is positive, as the specification's data model requires,
  and whose line size passed the constructor's assertion.
\<close>

definition configured :: "cache_state \<Rightarrow> bool" where
  "configured c \<longleftrightarrow> 0 < n_lines c \<and> line_size c \<noteq> 0"

text \<open>A property of every cache level of a hierarchy.\<close>

fun all_levels :: "(cache_state \<Rightarrow> bool) \<Rightarrow> memory_model \<Rightarrow> bool" where
  "all_levels P (RamModel r) = True"
| "all_levels P (CacheModel c nxt) = (P c \<and> all_levels P nxt)"

text \<open>No penalty of the hierarchy is negative.\<close>

fun nonneg_penalties :: "memory_model \<Rightarrow> bool" where
  "nonneg_penalties (RamModel r) = (0 \<le> access_penalty r)"
| "nonneg_penalties (CacheModel c nxt) = (0 \<le> hit_penalty c \<and> nonneg_penalties nxt)"

section \<open>The experiment platform\<close>

text \<open>
  Python floats are modelled as \<open>real\<close>: the rounding of floating-point arithmetic is
  not modelled. \<open>/\<close> is Python's true division, which raises ZeroDivisionError for a
  zero divisor.
\<close>

text \<open>
  The body of the loop of \<open>get_penalties\<close> in \<open>run_strided_experiment\<close> (lines 127-130)
  for one generated address list and one fresh model: one trial, which yields
  \<open>penalty / len(addresses)\<close>.
\<close>

definition get_penalties_trial :: "memory_model \<Rightarrow> int list \<Rightarrow> py_error + real" where
  "get_penalties_trial model addresses =
     (case perform_accesses model addresses of
        Inl e \<Rightarrow> Inl e
      | Inr (penalty, model1) \<Rightarrow>
          if length addresses = 0 then Inl ZeroDivisionError
          else Inr (real_of_int penalty / real (length addresses)))"

text \<open>The three messages that \<open>mean\<close> prints (lines 107, 109 and 112), with their values.\<close>

datatype message =
    Converging real real
  | Converged real
  | CurrentMean real real

text \<open>\<open>print\<close>: a message in front of what the rest of the computation prints.\<close>

definition emit :: "message \<Rightarrow> 'a \<times> message list \<Rightarrow> 'a \<times> message list" where
  "emit msg r = (fst r, msg # snd r)"

text \<open>
  The loop of \<open>mean\<close> (lines 99-116) from the loop state \<open>n\<close>, \<open>sum\<close>, \<open>mean\<close>,
  \<open>n_successes\<close>, over the trials still to come, together with the final
  \<open>assert n\<close> and \<open>return mean\<close>. The result is the returned value or the exception,
  paired with the messages printed, one per trial consumed. The counter \<open>n\<close> starts at
  zero and only grows, so it is a \<open>nat\<close> and \<open>sum / n\<close> never divides by zero.
\<close>

fun mean_loop ::
  "real list \<Rightarrow> real \<Rightarrow> int \<Rightarrow> nat \<Rightarrow> real \<Rightarrow> real \<Rightarrow> int \<Rightarrow> (py_error + real) \<times> message list"
where
  "mean_loop [] eps n_expected_successes n sum_acc mean_acc n_successes =
     (if n = 0 then (Inl AssertionError, []) else (Inr mean_acc, []))"
| "mean_loop (x # data) eps n_expected_successes n sum_acc mean_acc n_successes =
     (let sum1 = sum_acc + x;
          n1 = n + 1;
          cur_mean = sum1 / real n1;
          error = \<bar>mean_acc - cur_mean\<bar>
      in
        if error < eps then
          (let n_successes1 = n_successes + 1 in
             if n_successes1 < n_expected_successes
             then emit (Converging cur_mean error)
                    (mean_loop data eps n_expected_successes n1 sum1 cur_mean n_successes1)
             else (Inr cur_mean, [Converged cur_mean]))
        else emit (CurrentMean cur_mean error)
               (mean_loop data eps n_expected_successes n1 sum1 cur_mean 0))"

text \<open>\<open>mean\<close> (lines 94-116): the loop from the initial state of lines 95-98.\<close>

definition mean :: "real list \<Rightarrow> real \<Rightarrow> int \<Rightarrow> (py_error + real) \<times> message list" where
  "mean data eps n_expected_successes = mean_loop data eps n_expected_successes 0 0 0 0"

text \<open>
  What a run of \<open>mean\<close> shows: the number of trials it pulled from the stream (it prints
  one message per trial), and whether it left through the early return of line 110.
\<close>

definition trials_consumed :: "(py_error + real) \<times> message list \<Rightarrow> nat" where
  "trials_consumed r = length (snd r)"

fun is_Converged :: "message \<Rightarrow> bool" where
  "is_Converged (Converged m) = True"
| "is_Converged (Converging m e) = False"
| "is_Converged (CurrentMean m e) = False"

definition converged :: "(py_error + real) \<times> message list \<Rightarrow> bool" where
  "converged r = list_ex is_Converged (snd r)"

section \<open>The address generators\<close>

definition ARRAY_SIZE :: int where
  "ARRAY_SIZE = 2 * (1024 * (1024 * 1024))"

definition MAX_ADDRESSES :: int where
  "MAX_ADDRESSES = 1000000"

text \<open>\<open>len(range(start, stop, step))\<close> of Python; a zero step raises ValueError.\<close>

definition range_len :: "int \<Rightarrow> int \<Rightarrow> int \<Rightarrow> py_error + int" where
  "range_len start stop step =
     (if step = 0 then Inl ValueError
      else if 0 < step then
        (if start < stop then Inr ((stop - start - 1) div step + 1) else Inr 0)
      else
        (if stop < start then Inr ((start - stop - 1) div (- step) + 1) else Inr 0))"

text \<open>
  \<open>random.randrange(start, stop, step)\<close> of the Python standard library. The random
  source is an argument: \<open>r\<close> is the raw draw, and \<open>_randbelow(n)\<close> is \<open>r mod n\<close>, so
  every element of the range can be drawn and nothing else. An empty range and a zero
  step raise ValueError.
\<close>

definition randrange :: "int \<Rightarrow> int \<Rightarrow> int \<Rightarrow> nat \<Rightarrow> py_error + int" where
  "randrange start stop step r =
     (let width = stop - start in
      if step = 0 then Inl ValueError
      else
        let n = (if 0 < step then (width + step - 1) div step
                 else (width + step + 1) div step)
        in if n \<le> 0 then Inl ValueError
           else Inr (start + step * (int r mod n)))"

text \<open>
  The loop of \<open>generate_random_strided_addresses\<close> (lines 199-203). It runs until the
  set holds \<open>n_addresses\<close> elements, which may be never; the list of raw draws is its
  fuel, and \<open>None\<close> is a loop that is still running when the draws are used up.
\<close>

fun random_strided_loop ::
  "int \<Rightarrow> int \<Rightarrow> nat list \<Rightarrow> int set \<Rightarrow> int list \<Rightarrow> (py_error + int list) option"
where
  "random_strided_loop stride n_addresses draws result_set result =
     (if int (card result_set) < n_addresses then
        (case draws of
           [] \<Rightarrow> None
         | r # rest \<Rightarrow>
             (case randrange 0 ARRAY_SIZE stride r of
                Inl e \<Rightarrow> Some (Inl e)
              | Inr n \<Rightarrow>
                  random_strided_loop stride n_addresses rest
                    (insert n result_set) (result @ [n])))
      else Some (Inr result))"

text \<open>\<open>generate_random_strided_addresses\<close> (lines 194-203).\<close>

definition generate_random_strided_addresses ::
  "int \<Rightarrow> nat list \<Rightarrow> (py_error + int list) option"
where
  "generate_random_strided_addresses stride draws =
     (case range_len 0 ARRAY_SIZE stride of
        Inl e \<Rightarrow> Some (Inl e)
      | Inr n_strided_addresses \<Rightarrow>
          (let n_addresses = min MAX_ADDRESSES n_strided_addresses
           in random_strided_loop stride n_addresses draws {} []))"

text \<open>
  The loop of \<open>generate_directed_strided_addresses\<close> (lines 209-212), run \<open>k\<close> times; the
  result is the list of everything the generator yields. \<open>None\<close> is a list of draws
  that is too short for the loop.
\<close>

fun directed_strided_loop :: "nat \<Rightarrow> int \<Rightarrow> nat list \<Rightarrow> (py_error + int list) option" where
  "directed_strided_loop 0 stride draws = Some (Inr [])"
| "directed_strided_loop (Suc k) stride [] = None"
| "directed_strided_loop (Suc k) stride (r # rest) =
     (case randrange 0 ARRAY_SIZE (2 * stride) r of
        Inl e \<Rightarrow> Some (Inl e)
      | Inr base_addr \<Rightarrow>
          (case directed_strided_loop k stride rest of
             None \<Rightarrow> None
           | Some (Inl e) \<Rightarrow> Some (Inl e)
           | Some (Inr addrs) \<Rightarrow> Some (Inr (base_addr # (base_addr + stride) # addrs))))"

text \<open>
  \<open>generate_directed_strided_addresses\<close> (lines 206-212); \<open>range(n_addresses)\<close> is empty
  for a count that is not positive.
\<close>

definition generate_directed_strided_addresses ::
  "int \<Rightarrow> nat list \<Rightarrow> (py_error + int list) option"
where
  "generate_directed_strided_addresses stride draws =
     (case range_len 0 ARRAY_SIZE stride of
        Inl e \<Rightarrow> Some (Inl e)
      | Inr n_strided_addresses \<Rightarrow>
          (let n_addresses = min (MAX_ADDRESSES div 2) n_strided_addresses
           in directed_strided_loop (nat n_addresses) stride draws))"

text \<open>
  The distinct strided positions of the address space: the multiples of the stride
  from 0 below \<open>ARRAY_SIZE\<close>, which are the elements of \<open>range(0, ARRAY_SIZE, stride)\<close>
  for a positive stride.
\<close>

definition strided_positions :: "int \<Rightarrow> int set" where
  "strided_positions stride = {a. 0 \<le> a \<and> a < ARRAY_SIZE \<and> a mod stride = 0}"

section \<open>Properties of the cache levels\<close>

text \<open>Floor division, as Python's \<open>//\<close>, also below zero.\<close>

lemma floor_division_examples: "(- 7) div (2::int) = - 4 \<and> 7 div (- 2 :: int) = - 4"
  by simp

text \<open>
  With a duplicate-free queue its length is the size of its set, so the invariant is
  the three facts below.
\<close>

lemma cache_invariant_iff:
  "cache_invariant c \<longleftrightarrow>
     distinct (cached_lines_queue c) \<and>
     cached_lines_set c = set (cached_lines_queue c) \<and>
     int (length (cached_lines_queue c)) \<le> n_lines c"
  by (auto simp: cache_invariant_def distinct_card)

text \<open>
  Admission keeps the invariant and the configuration of a level, and never raises on a
  level that satisfies the invariant: the queue that is popped is not empty and the line
  that is removed is in the set.
\<close>

lemma add_to_cache_invariant:
  assumes "cache_invariant c" and "0 < n_lines c"
  shows "\<exists>c'. add_to_cache c l = Inr c' \<and> cache_invariant c' \<and>
           n_lines c' = n_lines c \<and> line_size c' = line_size c \<and>
           hit_penalty c' = hit_penalty c \<and> total_penalty c' = total_penalty c"
proof (cases "l \<in> cached_lines_set c")
  case True
  with assms show ?thesis by (simp add: add_to_cache_def)
next
  case miss: False
  from assms(1) have d: "distinct (cached_lines_queue c)"
    and s: "cached_lines_set c = set (cached_lines_queue c)"
    and le: "int (length (cached_lines_queue c)) \<le> n_lines c"
    by (simp_all add: cache_invariant_iff)
  show ?thesis
  proof (cases "int (length (cached_lines_queue c)) = n_lines c")
    case full: True
    with assms(2) obtain q rest where q: "cached_lines_queue c = q # rest"
      by (cases "cached_lines_queue c") auto
    from q d have nq: "q \<notin> set rest" by simp
    from q s miss have nl: "l \<noteq> q" "l \<notin> set rest" by auto
    have "insert l (cached_lines_set c - {q}) = set (rest @ [l])"
      using q s nq by auto
    with q d s full miss nl show ?thesis
      by (simp add: add_to_cache_def cache_invariant_iff)
  next
    case False
    with le have "int (length (cached_lines_queue c)) < n_lines c" by simp
    with False d s miss show ?thesis
      by (simp add: add_to_cache_def cache_invariant_iff)
  qed
qed

lemma perform_access_invariant:
  "all_levels configured m \<Longrightarrow> all_levels cache_invariant m \<Longrightarrow>
   \<exists>m'. perform_access m a = Inr m' \<and> all_levels configured m' \<and> all_levels cache_invariant m'"
proof (induction m)
  case (RamModel r)
  then show ?case by simp
next
  case (CacheModel c nxt)
  from CacheModel.prems have cfg: "configured c" and inv: "cache_invariant c"
    and cn: "all_levels configured nxt" and invn: "all_levels cache_invariant nxt"
    by simp_all
  from cfg have ls: "line_size c \<noteq> 0" and nl: "0 < n_lines c" by (simp_all add: configured_def)
  let ?l = "a div line_size c"
  show ?case
  proof (cases "?l \<in> cached_lines_set c")
    case True
    let ?c1 = "c\<lparr>total_penalty := total_penalty c + hit_penalty c\<rparr>"
    have "cache_invariant ?c1" using inv by (simp add: cache_invariant_iff)
    moreover have "0 < n_lines ?c1" using nl by simp
    ultimately obtain c2 where c2: "add_to_cache ?c1 ?l = Inr c2" "cache_invariant c2"
      "n_lines c2 = n_lines ?c1" "line_size c2 = line_size ?c1"
      using add_to_cache_invariant by blast
    with cfg have "configured c2" by (simp add: configured_def)
    with True ls c2 cn invn show ?thesis by simp
  next
    case False
    from CacheModel.IH[OF cn invn] obtain nxt1 where n1: "perform_access nxt a = Inr nxt1"
      "all_levels configured nxt1" "all_levels cache_invariant nxt1" by blast
    from add_to_cache_invariant[OF inv nl] obtain c2 where c2: "add_to_cache c ?l = Inr c2"
      "cache_invariant c2" "n_lines c2 = n_lines c" "line_size c2 = line_size c"
      by blast
    with cfg have "configured c2" by (simp add: configured_def)
    with False ls c2 n1 show ?thesis by simp
  qed
qed

lemma access_loop_invariant:
  "all_levels configured m \<Longrightarrow> all_levels cache_invariant m \<Longrightarrow>
   \<exists>m'. access_loop m addrs = Inr m' \<and> all_levels configured m' \<and> all_levels cache_invariant m'"
proof (induction addrs arbitrary: m)
  case Nil
  then show ?case by simp
next
  case (Cons a addrs)
  from perform_access_invariant[OF Cons.prems] obtain m1 where
    m1: "perform_access m a = Inr m1" "all_levels configured m1" "all_levels cache_invariant m1"
    by blast
  from Cons.IH[OF m1(2,3)] m1(1) show ?case by simp
qed



text \<open>
  C2: for every hierarchy whose cache levels have a positive capacity, the invariant of
  every cache level (queue and set of the same size, at most \<open>n_lines\<close>, no duplicate
  in the queue, the set exactly the elements of the queue) holds for a freshly
  constructed level, and, once it holds, every sequence of accesses runs without an
  exception and leaves it true at every level.
\<close>

theorem cache_invariant_always:
  "(0 < nl \<and> ls \<noteq> 0 \<longrightarrow>
      (\<exists>c. CacheModel_init nl ls hp nxt = Inr (CacheModel c nxt) \<and>
         configured c \<and> cache_invariant c)) \<and>
   (all_levels configured m \<and> all_levels cache_invariant m \<longrightarrow>
      (\<exists>m'. access_loop m addrs = Inr m' \<and>
         all_levels configured m' \<and> all_levels cache_invariant m'))"
  using access_loop_invariant[of m addrs]
  by (simp add: CacheModel_init_def cache_invariant_def configured_def)

theorem cache_invariant_always_witness:
  "(0::int) < 2 \<and> (1::int) \<noteq> 0 \<and>
   (\<exists>c. CacheModel_init 2 1 1 (RamModel_init 100) = Inr (CacheModel c (RamModel_init 100)) \<and>
      configured c \<and> cache_invariant c) \<and>
   all_levels configured
     (CacheModel \<lparr>n_lines = 2, line_size = 1, hit_penalty = 1,
        cached_lines_queue = [], cached_lines_set = {}, total_penalty = 0\<rparr>
        (RamModel_init 100)) \<and>
   all_levels cache_invariant
     (CacheModel \<lparr>n_lines = 2, line_size = 1, hit_penalty = 1,
        cached_lines_queue = [], cached_lines_set = {}, total_penalty = 0\<rparr>
        (RamModel_init 100)) \<and>
   (\<exists>m'. access_loop
       (CacheModel \<lparr>n_lines = 2, line_size = 1, hit_penalty = 1,
          cached_lines_queue = [], cached_lines_set = {}, total_penalty = 0\<rparr>
          (RamModel_init 100)) [0, 1, 2, 0] = Inr m' \<and>
      all_levels configured m' \<and> all_levels cache_invariant m')"
  using cache_invariant_always [of 2 1 1 "RamModel_init 100"
      "CacheModel \<lparr>n_lines = 2, line_size = 1, hit_penalty = 1,
         cached_lines_queue = [], cached_lines_set = {}, total_penalty = 0\<rparr>
         (RamModel_init 100)" "[0, 1, 2, 0]"]
  by (simp add: configured_def cache_invariant_def RamModel_init_def CacheModel_init_def)

text \<open>
  C6: a cache level with \<open>n_lines = 1\<close>, \<open>line_size = 1\<close>, \<open>hit_penalty = 1\<close> over a
  terminal store with \<open>access_penalty = 100\<close>, given the addresses \<open>[0, 0, 1, 0]\<close>,
  reports the total penalty 301.
\<close>

theorem end_to_end_301:
  "(case CacheModel_init 1 1 1 (RamModel_init 100) of
      Inl e \<Rightarrow> Inl e
    | Inr l1 \<Rightarrow> map_sum id fst (perform_accesses l1 [0, 0, 1, 0])) = Inr 301"
  by (simp add: CacheModel_init_def RamModel_init_def perform_accesses_def add_to_cache_def)

text \<open>
  The loop of \<open>perform_accesses\<close> is \<open>perform_access\<close> applied to every address in
  order, each call on the model the call before has left; an exception ends it.
\<close>

lemma feed_error:
  "fold (\<lambda>addr r. case r of Inl e \<Rightarrow> Inl e | Inr m \<Rightarrow> perform_access m addr) addresses (Inl e)
     = Inl e"
  by (induction addresses) simp_all

lemma access_loop_fold:
  "access_loop model addresses =
     fold (\<lambda>addr r. case r of Inl e \<Rightarrow> Inl e | Inr m \<Rightarrow> perform_access m addr)
       addresses (Inr model)"
proof (induction addresses arbitrary: model)
  case Nil
  show ?case by simp
next
  case (Cons a addresses)
  show ?case
  proof (cases "perform_access model a")
    case (Inl e)
    then show ?thesis by (simp add: feed_error)
  next
    case (Inr m1)
    with Cons.IH[of m1] show ?thesis by simp
  qed
qed

text \<open>
  C7: one trial feeds every address, in order, through \<open>perform_access\<close> of the root,
  reads the total of the model that results once, and returns it divided by the number
  of addresses; on an empty address sequence it raises ZeroDivisionError instead of
  returning a value. On a hierarchy with positive capacities that satisfies the
  invariant, a trial over a non-empty sequence does return that quotient.
\<close>

theorem trial_runner:
  "get_penalties_trial model [] = Inl ZeroDivisionError \<and>
   get_penalties_trial model addresses =
     (case fold (\<lambda>addr r. case r of Inl e \<Rightarrow> Inl e | Inr m \<Rightarrow> perform_access m addr)
             addresses (Inr model) of
        Inl e \<Rightarrow> Inl e
      | Inr model1 \<Rightarrow>
          if addresses = [] then Inl ZeroDivisionError
          else Inr (real_of_int (get_total_penalty model1) / real (length addresses))) \<and>
   (addresses \<noteq> [] \<and> access_loop model addresses = Inr model1 \<longrightarrow>
      get_penalties_trial model addresses =
        Inr (real_of_int (get_total_penalty model1) / real (length addresses))) \<and>
   (addresses \<noteq> [] \<and> all_levels configured model \<and> all_levels cache_invariant model \<longrightarrow>
      (\<exists>model2.
         fold (\<lambda>addr r. case r of Inl e \<Rightarrow> Inl e | Inr m \<Rightarrow> perform_access m addr)
           addresses (Inr model) = Inr model2 \<and>
         get_penalties_trial model addresses =
           Inr (real_of_int (get_total_penalty model2) / real (length addresses))))"
proof (intro conjI impI)
  show "get_penalties_trial model [] = Inl ZeroDivisionError"
    by (simp add: get_penalties_trial_def perform_accesses_def)
  show "get_penalties_trial model addresses =
     (case fold (\<lambda>addr r. case r of Inl e \<Rightarrow> Inl e | Inr m \<Rightarrow> perform_access m addr)
             addresses (Inr model) of
        Inl e \<Rightarrow> Inl e
      | Inr model1 \<Rightarrow>
          if addresses = [] then Inl ZeroDivisionError
          else Inr (real_of_int (get_total_penalty model1) / real (length addresses)))"
    by (simp add: get_penalties_trial_def perform_accesses_def access_loop_fold[symmetric]
        split: sum.splits)
next
  assume "addresses \<noteq> [] \<and> access_loop model addresses = Inr model1"
  then show "get_penalties_trial model addresses =
        Inr (real_of_int (get_total_penalty model1) / real (length addresses))"
    by (simp add: get_penalties_trial_def perform_accesses_def)
next
  assume h: "addresses \<noteq> [] \<and> all_levels configured model \<and> all_levels cache_invariant model"
  then obtain model2 where m2: "access_loop model addresses = Inr model2"
    using access_loop_invariant[of model addresses] by blast
  with h show "\<exists>model2.
         fold (\<lambda>addr r. case r of Inl e \<Rightarrow> Inl e | Inr m \<Rightarrow> perform_access m addr)
           addresses (Inr model) = Inr model2 \<and>
         get_penalties_trial model addresses =
           Inr (real_of_int (get_total_penalty model2) / real (length addresses))"
    by (intro exI[where x = model2])
       (simp add: get_penalties_trial_def perform_accesses_def access_loop_fold[symmetric])
qed

theorem trial_runner_witness:
  "get_penalties_trial
     (CacheModel \<lparr>n_lines = 1, line_size = 1, hit_penalty = 1,
        cached_lines_queue = [], cached_lines_set = {}, total_penalty = 0\<rparr>
        (RamModel \<lparr>access_penalty = 100, ram_total_penalty = 0\<rparr>)) [] =
     Inl ZeroDivisionError \<and>
   [0, 0, 1, 0] \<noteq> ([] :: int list) \<and>
   all_levels configured
     (CacheModel \<lparr>n_lines = 1, line_size = 1, hit_penalty = 1,
        cached_lines_queue = [], cached_lines_set = {}, total_penalty = 0\<rparr>
        (RamModel \<lparr>access_penalty = 100, ram_total_penalty = 0\<rparr>)) \<and>
   all_levels cache_invariant
     (CacheModel \<lparr>n_lines = 1, line_size = 1, hit_penalty = 1,
        cached_lines_queue = [], cached_lines_set = {}, total_penalty = 0\<rparr>
        (RamModel \<lparr>access_penalty = 100, ram_total_penalty = 0\<rparr>)) \<and>
   access_loop
     (CacheModel \<lparr>n_lines = 1, line_size = 1, hit_penalty = 1,
        cached_lines_queue = [], cached_lines_set = {}, total_penalty = 0\<rparr>
        (RamModel \<lparr>access_penalty = 100, ram_total_penalty = 0\<rparr>)) [0, 0, 1, 0] =
     Inr (CacheModel \<lparr>n_lines = 1, line_size = 1, hit_penalty = 1,
        cached_lines_queue = [0], cached_lines_set = {0}, total_penalty = 1\<rparr>
        (RamModel \<lparr>access_penalty = 100, ram_total_penalty = 300\<rparr>)) \<and>
   fold (\<lambda>addr r. case r of Inl e \<Rightarrow> Inl e | Inr m \<Rightarrow> perform_access m addr) [0, 0, 1, 0]
     (Inr (CacheModel \<lparr>n_lines = 1, line_size = 1, hit_penalty = 1,
        cached_lines_queue = [], cached_lines_set = {}, total_penalty = 0\<rparr>
        (RamModel \<lparr>access_penalty = 100, ram_total_penalty = 0\<rparr>))) =
     Inr (CacheModel \<lparr>n_lines = 1, line_size = 1, hit_penalty = 1,
        cached_lines_queue = [0], cached_lines_set = {0}, total_penalty = 1\<rparr>
        (RamModel \<lparr>access_penalty = 100, ram_total_penalty = 300\<rparr>)) \<and>
   get_penalties_trial
     (CacheModel \<lparr>n_lines = 1, line_size = 1, hit_penalty = 1,
        cached_lines_queue = [], cached_lines_set = {}, total_penalty = 0\<rparr>
        (RamModel \<lparr>access_penalty = 100, ram_total_penalty = 0\<rparr>)) [0, 0, 1, 0] = Inr (301 / 4)"
  using trial_runner [of
      "CacheModel \<lparr>n_lines = 1, line_size = 1, hit_penalty = 1,
        cached_lines_queue = [], cached_lines_set = {}, total_penalty = 0\<rparr>
        (RamModel \<lparr>access_penalty = 100, ram_total_penalty = 0\<rparr>)"
      "[0, 0, 1, 0]"
      "CacheModel \<lparr>n_lines = 1, line_size = 1, hit_penalty = 1,
        cached_lines_queue = [0], cached_lines_set = {0}, total_penalty = 1\<rparr>
        (RamModel \<lparr>access_penalty = 100, ram_total_penalty = 300\<rparr>)"]
  by (simp add: configured_def cache_invariant_def add_to_cache_def)

text \<open>
  An access adds the hit penalty of one level or, further down, the access penalty of
  the terminal store, and nothing else.
\<close>

lemma perform_access_mono:
  "nonneg_penalties m \<Longrightarrow> perform_access m a = Inr m' \<Longrightarrow>
   get_total_penalty m \<le> get_total_penalty m'"
proof (induction m arbitrary: m')
  case (RamModel r)
  then show ?case by auto
next
  case (CacheModel c nxt)
  from CacheModel.prems(1) have hp: "0 \<le> hit_penalty c" and nn: "nonneg_penalties nxt"
    by simp_all
  from CacheModel.prems(2) have ls: "line_size c \<noteq> 0" by (auto split: if_splits)
  let ?l = "a div line_size c"
  show ?case
  proof (cases "?l \<in> cached_lines_set c")
    case True
    with CacheModel.prems(2) ls hp show ?thesis
      by (auto simp: add_to_cache_def)
  next
    case False
    with CacheModel.prems(2) ls obtain nxt1 c2 where
      n1: "perform_access nxt a = Inr nxt1" and c2: "add_to_cache c ?l = Inr c2"
      and m': "m' = CacheModel c2 nxt1"
      by (auto simp: Let_def split: sum.splits)
    from c2 have "total_penalty c2 = total_penalty c"
      by (auto simp: add_to_cache_def split: if_splits list.splits)
    with CacheModel.IH[OF nn n1] m' show ?thesis by simp
  qed
qed

lemma access_loop_ram:
  "access_loop (RamModel r) addrs =
     Inr (RamModel (r\<lparr>ram_total_penalty := ram_total_penalty r + int (length addrs) * access_penalty r\<rparr>))"
  by (induction addrs arbitrary: r) (simp_all add: algebra_simps)

text \<open>
  C8: when no hit penalty and no access penalty is negative, an access that returns
  does not decrease the total penalty of the root; and a terminal store with access
  penalty \<open>p\<close> alone has the total \<open>n * p\<close> after \<open>n\<close> accesses.
\<close>

theorem total_penalty_monotone_and_ram_exact:
  "(nonneg_penalties m \<and> perform_access m a = Inr m' \<longrightarrow>
      get_total_penalty m \<le> get_total_penalty m') \<and>
   perform_accesses (RamModel_init p) addrs =
     Inr (int (length addrs) * p,
          RamModel \<lparr>access_penalty = p, ram_total_penalty = int (length addrs) * p\<rparr>)"
  using perform_access_mono[of m a m']
  by (simp add: perform_accesses_def RamModel_init_def access_loop_ram)

theorem total_penalty_monotone_and_ram_exact_witness:
  "nonneg_penalties
     (CacheModel \<lparr>n_lines = 1, line_size = 1, hit_penalty = 1,
        cached_lines_queue = [], cached_lines_set = {}, total_penalty = 0\<rparr>
        (RamModel \<lparr>access_penalty = 100, ram_total_penalty = 0\<rparr>)) \<and>
   perform_access
     (CacheModel \<lparr>n_lines = 1, line_size = 1, hit_penalty = 1,
        cached_lines_queue = [], cached_lines_set = {}, total_penalty = 0\<rparr>
        (RamModel \<lparr>access_penalty = 100, ram_total_penalty = 0\<rparr>)) 0 =
     Inr (CacheModel \<lparr>n_lines = 1, line_size = 1, hit_penalty = 1,
        cached_lines_queue = [0], cached_lines_set = {0}, total_penalty = 0\<rparr>
        (RamModel \<lparr>access_penalty = 100, ram_total_penalty = 100\<rparr>)) \<and>
   get_total_penalty
     (CacheModel \<lparr>n_lines = 1, line_size = 1, hit_penalty = 1,
        cached_lines_queue = [], cached_lines_set = {}, total_penalty = 0\<rparr>
        (RamModel \<lparr>access_penalty = 100, ram_total_penalty = 0\<rparr>))
   \<le> get_total_penalty
     (CacheModel \<lparr>n_lines = 1, line_size = 1, hit_penalty = 1,
        cached_lines_queue = [0], cached_lines_set = {0}, total_penalty = 0\<rparr>
        (RamModel \<lparr>access_penalty = 100, ram_total_penalty = 100\<rparr>)) \<and>
   perform_accesses (RamModel_init 100) [5, 6, 7] =
     Inr (300, RamModel \<lparr>access_penalty = 100, ram_total_penalty = 300\<rparr>)"
  using total_penalty_monotone_and_ram_exact [of
      "CacheModel \<lparr>n_lines = 1, line_size = 1, hit_penalty = 1,
         cached_lines_queue = [], cached_lines_set = {}, total_penalty = 0\<rparr>
         (RamModel \<lparr>access_penalty = 100, ram_total_penalty = 0\<rparr>)" 0
      "CacheModel \<lparr>n_lines = 1, line_size = 1, hit_penalty = 1,
         cached_lines_queue = [0], cached_lines_set = {0}, total_penalty = 0\<rparr>
         (RamModel \<lparr>access_penalty = 100, ram_total_penalty = 100\<rparr>)" 100 "[5, 6, 7]"]
  by (simp add: add_to_cache_def)

section \<open>Properties of the convergence estimator\<close>

lemma emit_simps: "fst (emit msg r) = fst r" "snd (emit msg r) = msg # snd r"
  by (simp_all add: emit_def)

text \<open>The only exception of the loop is the assertion, on no data at all.\<close>

lemma mean_loop_raises:
  "fst (mean_loop data eps ne n s m k) = Inl e \<longleftrightarrow> data = [] \<and> n = 0 \<and> e = AssertionError"
  by (induction data arbitrary: n s m k) (auto simp: Let_def emit_simps)

text \<open>
  A run that never takes the early return consumes every trial and returns the mean of
  all of them. The loop state satisfies \<open>mean = sum / n\<close> once a trial has been seen.
\<close>

lemma mean_loop_exhausted:
  "\<not> list_ex is_Converged (snd (mean_loop data eps ne n s m k)) \<Longrightarrow>
   0 < n + length data \<Longrightarrow> (0 < n \<Longrightarrow> m = s / real n) \<Longrightarrow>
   fst (mean_loop data eps ne n s m k) = Inr ((s + sum_list data) / real (n + length data)) \<and>
   length (snd (mean_loop data eps ne n s m k)) = length data"
proof (induction data arbitrary: n s m k)
  case Nil
  then show ?case by simp
next
  case (Cons x data)
  let ?s1 = "s + x" and ?n1 = "n + 1"
  let ?cm = "?s1 / real ?n1"
  have st: "0 < ?n1 + length data" "0 < ?n1 \<Longrightarrow> ?cm = ?s1 / real ?n1" by simp_all
  show ?case
  proof (cases "\<bar>m - ?cm\<bar> < eps")
    case ok: True
    show ?thesis
    proof (cases "k + 1 < ne")
      case True
      with ok Cons.prems(1)
      have nc: "\<not> list_ex is_Converged (snd (mean_loop data eps ne ?n1 ?s1 ?cm (k + 1)))"
        by (simp add: Let_def emit_simps)
      from Cons.IH[OF nc st] ok True show ?thesis
        by (simp add: Let_def emit_simps add.assoc)
    next
      case False
      with ok Cons.prems(1) show ?thesis by (simp add: Let_def)
    qed
  next
    case False
    with Cons.prems(1)
    have nc: "\<not> list_ex is_Converged (snd (mean_loop data eps ne ?n1 ?s1 ?cm 0))"
      by (simp add: Let_def emit_simps)
    from Cons.IH[OF nc st] False show ?thesis
      by (simp add: Let_def emit_simps add.assoc)
  qed
qed

text \<open>
  The early return needs the success counter to reach the threshold, one trial for each
  success still missing.
\<close>

lemma mean_loop_needs_successes:
  "list_ex is_Converged (snd (mean_loop data eps ne n s m k)) \<Longrightarrow> 0 \<le> k \<Longrightarrow>
   ne - k \<le> int (length (snd (mean_loop data eps ne n s m k)))"
proof (induction data arbitrary: n s m k)
  case Nil
  then show ?case by (cases "n = 0") simp_all
next
  case (Cons x data)
  let ?s1 = "s + x" and ?n1 = "n + 1"
  let ?cm = "?s1 / real ?n1"
  show ?case
  proof (cases "\<bar>m - ?cm\<bar> < eps")
    case ok: True
    show ?thesis
    proof (cases "k + 1 < ne")
      case True
      with ok Cons.prems(1)
      have c: "list_ex is_Converged (snd (mean_loop data eps ne ?n1 ?s1 ?cm (k + 1)))"
        by (simp add: Let_def emit_simps)
      from Cons.prems(2) have "0 \<le> k + 1" by simp
      from Cons.IH[OF c this] ok True show ?thesis
        by (simp add: Let_def emit_simps)
    next
      case False
      with ok show ?thesis by (simp add: Let_def)
    qed
  next
    case False
    with Cons.prems(1)
    have c: "list_ex is_Converged (snd (mean_loop data eps ne ?n1 ?s1 ?cm 0))"
      by (simp add: Let_def emit_simps)
    from Cons.IH[OF c] Cons.prems(2) False show ?thesis
      by (simp add: Let_def emit_simps)
  qed
qed

text \<open>
  A constant stream, once the running mean is that constant: every further trial is a
  success with error 0, whatever the tolerance.
\<close>

lemma mean_loop_constant:
  assumes "0 < eps" and "0 < n"
  shows "fst (mean_loop (replicate j v) eps ne n (v * real n) v k) = Inr v \<and>
         snd (mean_loop (replicate j v) eps ne n (v * real n) v k) =
           (if max 1 (ne - k) \<le> int j
            then replicate (nat (max 1 (ne - k)) - 1) (Converging v 0) @ [Converged v]
            else replicate j (Converging v 0))"
  using assms(2)
proof (induction j arbitrary: n k)
  case 0
  then show ?case by simp
next
  case (Suc j)
  have cm: "(v * real n + v) / real (n + 1) = v"
    by (simp add: field_simps)
  have s1: "v * real n + v = v * real (n + 1)" by (simp add: algebra_simps)
  show ?case
  proof (cases "k + 1 < ne")
    case True
    have IH: "fst (mean_loop (replicate j v) eps ne (n + 1) (v * real (n + 1)) v (k + 1)) = Inr v \<and>
         snd (mean_loop (replicate j v) eps ne (n + 1) (v * real (n + 1)) v (k + 1)) =
           (if max 1 (ne - (k + 1)) \<le> int j
            then replicate (nat (max 1 (ne - (k + 1))) - 1) (Converging v 0) @ [Converged v]
            else replicate j (Converging v 0))"
      using Suc.IH[of "n + 1" "k + 1"] by simp
    from True have m1: "max 1 (ne - k) = ne - k" "max 1 (ne - (k + 1)) = ne - (k+1)" by simp_all
    from True have r: "nat (ne - k) - 1 = Suc (nat (ne - (k + 1)) - 1)" by simp
    have step: "mean_loop (replicate (Suc j) v) eps ne n (v * real n) v k =
       emit (Converging v 0) (mean_loop (replicate j v) eps ne (n + 1) (v * real (n + 1)) v (k + 1))"
      using True assms(1) cm s1 by (simp add: Let_def del: of_nat_Suc of_nat_add)
    show ?thesis
      unfolding step emit_simps using IH True unfolding m1 r
      by (auto simp del: replicate_Suc simp add: replicate_Suc[symmetric])
  next
    case False
    have step: "mean_loop (replicate (Suc j) v) eps ne n (v * real n) v k = (Inr v, [Converged v])"
      using False assms(1) cm by (simp add: Let_def del: of_nat_Suc of_nat_add)
    from False have "max 1 (ne - k) = 1" by simp
    then show ?thesis unfolding step by simp
  qed
qed

text \<open>The first trial: the running mean is compared with the initial value 0 of line 97.\<close>

lemma mean_first_step:
  "mean (x # data) eps ne =
     (if \<bar>0 - x\<bar> < eps then
        (if 1 < ne then emit (Converging x \<bar>0 - x\<bar>) (mean_loop data eps ne 1 x x 1)
         else (Inr x, [Converged x]))
      else emit (CurrentMean x \<bar>0 - x\<bar>) (mean_loop data eps ne 1 x x 0))"
  by (simp add: mean_def Let_def)

text \<open>
  C4, as amended: for every \<open>eps > 0\<close> and every threshold, the estimator fed a
  non-empty stream of the constant 7 returns exactly 7. It converges after exactly
  \<open>max 1 n\<close> trials when \<open>eps > 7\<close>, and after exactly \<open>max 1 n + 1\<close> trials when
  \<open>eps \<le> 7\<close>, if the stream is that long: the first trial is compared with the initial
  mean 0, has the error 7 and is no success. With \<open>eps \<le> 7\<close> it does not converge
  within the threshold of trials.
\<close>

theorem mean_constant_seven:
  "0 < eps \<longrightarrow>
     (0 < j \<longrightarrow> fst (mean (replicate j 7) eps ne) = Inr 7) \<and>
     (7 < eps \<and> max 1 ne \<le> int j \<longrightarrow>
        converged (mean (replicate j 7) eps ne) \<and>
        trials_consumed (mean (replicate j 7) eps ne) = nat (max 1 ne)) \<and>
     (eps \<le> 7 \<and> max 1 ne + 1 \<le> int j \<longrightarrow>
        converged (mean (replicate j 7) eps ne) \<and>
        trials_consumed (mean (replicate j 7) eps ne) = nat (max 1 ne) + 1) \<and>
     (eps \<le> 7 \<and> int j \<le> max 1 ne \<longrightarrow> \<not> converged (mean (replicate j 7) eps ne))"
proof
  assume eps: "0 < eps"
  show "(0 < j \<longrightarrow> fst (mean (replicate j 7) eps ne) = Inr 7) \<and>
     (7 < eps \<and> max 1 ne \<le> int j \<longrightarrow>
        converged (mean (replicate j 7) eps ne) \<and>
        trials_consumed (mean (replicate j 7) eps ne) = nat (max 1 ne)) \<and>
     (eps \<le> 7 \<and> max 1 ne + 1 \<le> int j \<longrightarrow>
        converged (mean (replicate j 7) eps ne) \<and>
        trials_consumed (mean (replicate j 7) eps ne) = nat (max 1 ne) + 1) \<and>
     (eps \<le> 7 \<and> int j \<le> max 1 ne \<longrightarrow> \<not> converged (mean (replicate j 7) eps ne))"
  proof (cases j)
    case 0
    then show ?thesis by (simp add: mean_def converged_def max_def)
  next
    case (Suc i)
    have L: "\<And>k. fst (mean_loop (replicate i 7) eps ne 1 7 7 k) = Inr 7 \<and>
         snd (mean_loop (replicate i 7) eps ne 1 7 7 k) =
           (if max 1 (ne - k) \<le> int i
            then replicate (nat (max 1 (ne - k)) - 1) (Converging 7 0) @ [Converged 7]
            else replicate i (Converging 7 0))"
      using mean_loop_constant[OF eps, of 1 i 7 ne] by simp
    have nc: "\<And>n. \<not> list_ex is_Converged (replicate n (Converging 7 0))"
      by (simp add: list_ex_iff)
    show ?thesis
    proof (cases "7 < eps")
      case big: True
      show ?thesis
      proof (cases "1 < ne")
        case True
        with big Suc L[of 1] show ?thesis
          by (auto simp: mean_first_step emit_simps converged_def trials_consumed_def)
      next
        case False
        with big Suc show ?thesis
          by (simp add: mean_first_step converged_def trials_consumed_def)
      qed
    next
      case False
      with Suc L[of 0] nc show ?thesis
        by (auto simp: mean_first_step emit_simps converged_def trials_consumed_def)
    qed
  qed
qed

theorem mean_constant_seven_witness:
  "(0::real) < 1 / 1000 \<and> (0::nat) < 5 \<and> fst (mean (replicate 5 7) (1 / 1000) 3) = Inr 7 \<and>
   (1 / 1000 :: real) \<le> 7 \<and> max 1 3 + 1 \<le> int 5 \<and>
   converged (mean (replicate 5 7) (1 / 1000) 3) \<and>
   trials_consumed (mean (replicate 5 7) (1 / 1000) 3) = 4 \<and>
   (0::real) < 8 \<and> (7::real) < 8 \<and> max 1 3 \<le> int 5 \<and>
   converged (mean (replicate 5 7) 8 3) \<and>
   trials_consumed (mean (replicate 5 7) 8 3) = 3 \<and>
   int 3 \<le> max 1 3 \<and> \<not> converged (mean (replicate 3 7) (1 / 1000) 3)"
  using mean_constant_seven [of "1 / 1000" 5 3] mean_constant_seven [of 8 5 3]
    mean_constant_seven [of "1 / 1000" 3 3]
  by simp

text \<open>
  C4 as stated fails for the default \<open>eps\<close> and threshold 3: three trials of the
  constant 7 do not converge, and a longer stream converges at the fourth trial.
\<close>

theorem mean_constant_seven_counterexample:
  "\<not> converged (mean [7, 7, 7] (1 / 1000) 3) \<and>
   mean [7, 7, 7, 7, 7] (1 / 1000) 3 =
     (Inr 7, [CurrentMean 7 7, Converging 7 0, Converging 7 0, Converged 7]) \<and>
   \<not> trials_consumed (mean [7, 7, 7, 7, 7] (1 / 1000) 3) \<le> 3"
  by (simp add: mean_def emit_def converged_def trials_consumed_def)

text \<open>
  C5: \<open>mean\<close> raises exactly when the stream yields no trial, and then it is the
  assertion that fails; when a non-empty stream is exhausted without the early return,
  \<open>mean\<close> returns the running mean over all the trials.
\<close>

theorem mean_exhausted_fallback:
  "((\<exists>e. fst (mean data eps ne) = Inl e) \<longleftrightarrow> data = []) \<and>
   mean [] eps ne = (Inl AssertionError, []) \<and>
   (data \<noteq> [] \<and> \<not> converged (mean data eps ne) \<longrightarrow>
      fst (mean data eps ne) = Inr (sum_list data / real (length data)) \<and>
      trials_consumed (mean data eps ne) = length data)"
proof (intro conjI impI)
  show "(\<exists>e. fst (mean data eps ne) = Inl e) \<longleftrightarrow> data = []"
    by (simp add: mean_def mean_loop_raises)
  show "mean [] eps ne = (Inl AssertionError, [])"
    by (simp add: mean_def)
next
  assume h: "data \<noteq> [] \<and> \<not> converged (mean data eps ne)"
  then have nc: "\<not> list_ex is_Converged (snd (mean_loop data eps ne 0 0 0 0))"
    by (simp add: converged_def mean_def)
  from h have "0 < 0 + length data" by simp
  from mean_loop_exhausted[OF nc this]
  have r: "fst (mean data eps ne) = Inr (sum_list data / real (length data)) \<and>
      trials_consumed (mean data eps ne) = length data"
    by (simp add: mean_def trials_consumed_def)
  from r show "fst (mean data eps ne) = Inr (sum_list data / real (length data))" ..
  from r show "trials_consumed (mean data eps ne) = length data" ..
qed

theorem mean_exhausted_fallback_witness:
  "[1, 5] \<noteq> ([] :: real list) \<and> \<not> converged (mean [1, 5] 1 3) \<and>
   fst (mean [1, 5] 1 3) = Inr 3 \<and> trials_consumed (mean [1, 5] 1 3) = 2 \<and>
   mean [] 1 3 = (Inl AssertionError, [])"
  using mean_exhausted_fallback [of "[1, 5]" 1 3] mean_exhausted_fallback [of "[]" 1 3]
  by (simp add: mean_def emit_def converged_def)

text \<open>
  C10: the baseline of the first comparison is 0, so the first message reports the
  error \<open>\<bar>0 - x\<bar>\<close> for the first outcome \<open>x\<close>. With \<open>\<bar>x\<bar> < eps\<close> the first trial is a
  success at once: it is the result when the threshold is at most 1, otherwise the loop
  goes on with the success counter at 1, so that a stream that repeats \<open>x\<close> converges
  after exactly \<open>max 1 n_expected_successes\<close> trials. With \<open>\<bar>x\<bar> \<ge> eps\<close> the loop goes on
  with the counter at 0, and a run that converges has consumed at least
  \<open>n_expected_successes + 1\<close> trials.
\<close>

theorem mean_first_trial_against_zero:
  "snd (mean (x # data) eps ne) \<noteq> [] \<and>
   hd (snd (mean (x # data) eps ne)) =
     (if \<bar>0 - x\<bar> < eps then (if 1 < ne then Converging x \<bar>0 - x\<bar> else Converged x)
      else CurrentMean x \<bar>0 - x\<bar>) \<and>
   (\<bar>x\<bar> < eps \<and> ne \<le> 1 \<longrightarrow> mean (x # data) eps ne = (Inr x, [Converged x])) \<and>
   (\<bar>x\<bar> < eps \<and> 1 < ne \<longrightarrow>
      mean (x # data) eps ne =
        emit (Converging x \<bar>0 - x\<bar>) (mean_loop data eps ne 1 x x 1)) \<and>
   (eps \<le> \<bar>x\<bar> \<longrightarrow>
      mean (x # data) eps ne =
        emit (CurrentMean x \<bar>0 - x\<bar>) (mean_loop data eps ne 1 x x 0)) \<and>
   (\<bar>x\<bar> < eps \<and> max 1 ne \<le> int (Suc j) \<longrightarrow>
      fst (mean (replicate (Suc j) x) eps ne) = Inr x \<and>
      converged (mean (replicate (Suc j) x) eps ne) \<and>
      trials_consumed (mean (replicate (Suc j) x) eps ne) = nat (max 1 ne)) \<and>
   (eps \<le> \<bar>x\<bar> \<and> converged (mean (x # data) eps ne) \<longrightarrow>
      ne + 1 \<le> int (trials_consumed (mean (x # data) eps ne)))"
proof (intro conjI impI)
  show "snd (mean (x # data) eps ne) \<noteq> []"
    by (simp add: mean_first_step emit_simps)
  show "hd (snd (mean (x # data) eps ne)) =
     (if \<bar>0 - x\<bar> < eps then (if 1 < ne then Converging x \<bar>0 - x\<bar> else Converged x)
      else CurrentMean x \<bar>0 - x\<bar>)"
    by (simp add: mean_first_step emit_simps)
next
  assume "\<bar>x\<bar> < eps \<and> ne \<le> 1"
  then show "mean (x # data) eps ne = (Inr x, [Converged x])"
    by (simp add: mean_first_step)
next
  assume "\<bar>x\<bar> < eps \<and> 1 < ne"
  then show "mean (x # data) eps ne =
        emit (Converging x \<bar>0 - x\<bar>) (mean_loop data eps ne 1 x x 1)"
    by (simp add: mean_first_step)
next
  assume "eps \<le> \<bar>x\<bar>"
  then show "mean (x # data) eps ne =
        emit (CurrentMean x \<bar>0 - x\<bar>) (mean_loop data eps ne 1 x x 0)"
    by (simp add: mean_first_step)
next
  assume h: "\<bar>x\<bar> < eps \<and> max 1 ne \<le> int (Suc j)"
  then have eps: "0 < eps" by linarith
  have L: "fst (mean_loop (replicate j x) eps ne 1 x x 1) = Inr x \<and>
         snd (mean_loop (replicate j x) eps ne 1 x x 1) =
           (if max 1 (ne - 1) \<le> int j
            then replicate (nat (max 1 (ne - 1)) - 1) (Converging x 0) @ [Converged x]
            else replicate j (Converging x 0))"
    using mean_loop_constant[OF eps, of 1 j x ne 1] by simp
  have r: "fst (mean (replicate (Suc j) x) eps ne) = Inr x \<and>
      converged (mean (replicate (Suc j) x) eps ne) \<and>
      trials_consumed (mean (replicate (Suc j) x) eps ne) = nat (max 1 ne)"
  proof (cases "1 < ne")
    case True
    with h L show ?thesis
      by (auto simp: mean_first_step emit_simps converged_def trials_consumed_def)
  next
    case False
    with h show ?thesis
      by (simp add: mean_first_step converged_def trials_consumed_def)
  qed
  from r show "fst (mean (replicate (Suc j) x) eps ne) = Inr x" by simp
  from r show "converged (mean (replicate (Suc j) x) eps ne)" by simp
  from r show "trials_consumed (mean (replicate (Suc j) x) eps ne) = nat (max 1 ne)" by simp
next
  assume h: "eps \<le> \<bar>x\<bar> \<and> converged (mean (x # data) eps ne)"
  then have st: "mean (x # data) eps ne =
      emit (CurrentMean x \<bar>0 - x\<bar>) (mean_loop data eps ne 1 x x 0)"
    by (simp add: mean_first_step)
  with h have "list_ex is_Converged (snd (mean_loop data eps ne 1 x x 0))"
    by (simp add: converged_def emit_simps)
  then have "ne - 0 \<le> int (length (snd (mean_loop data eps ne 1 x x 0)))"
    by (rule mean_loop_needs_successes) simp
  then show "ne + 1 \<le> int (trials_consumed (mean (x # data) eps ne))"
    by (simp add: st trials_consumed_def emit_simps)
qed

theorem mean_first_trial_against_zero_witness:
  "(1 / 1000 :: real) \<le> \<bar>7\<bar> \<and> converged (mean [7, 7, 7, 7, 7] (1 / 1000) 3) \<and>
   (3::int) + 1 \<le> int (trials_consumed (mean [7, 7, 7, 7, 7] (1 / 1000) 3)) \<and>
   mean [7, 7, 7, 7, 7] (1 / 1000) 3 =
     emit (CurrentMean 7 \<bar>0 - 7\<bar>) (mean_loop [7, 7, 7, 7] (1 / 1000) 3 1 7 7 0) \<and>
   \<bar>1 / 2 :: real\<bar> < 1 \<and> (1::int) \<le> 1 \<and>
   mean [1 / 2, 9] 1 1 = (Inr (1 / 2), [Converged (1 / 2)]) \<and>
   (1::int) < 2 \<and> max 1 2 \<le> int (Suc 2) \<and>
   mean [1 / 2, 1 / 2, 1 / 2] 1 2 =
     emit (Converging (1 / 2) \<bar>0 - 1 / 2\<bar>) (mean_loop [1 / 2, 1 / 2] 1 2 1 (1 / 2) (1 / 2) 1) \<and>
   mean [1 / 2, 1 / 2, 1 / 2] 1 2 = (Inr (1 / 2), [Converging (1 / 2) (1 / 2), Converged (1 / 2)]) \<and>
   converged (mean (replicate (Suc 2) (1 / 2)) 1 2) \<and>
   trials_consumed (mean (replicate (Suc 2) (1 / 2)) 1 2) = 2"
  using mean_first_trial_against_zero [of 7 "[7, 7, 7, 7]" "1 / 1000" 3 0]
    mean_first_trial_against_zero [of "1 / 2" "[9]" 1 1 0]
    mean_first_trial_against_zero [of "1 / 2" "[1 / 2, 1 / 2]" 1 2 2]
  by (simp add: mean_def emit_def converged_def trials_consumed_def)

section \<open>Properties of the address generators\<close>

lemma mult_div_le_int: "0 < (s::int) \<Longrightarrow> s * (x div s) \<le> x"
  using mult_div_mod_eq[of s x] pos_mod_sign[of s x] by linarith

text \<open>
  The strided positions are the multiples \<open>stride * i\<close> for \<open>i\<close> from 0 to
  \<open>(ARRAY_SIZE - 1) div stride\<close>, and \<open>len(range(0, ARRAY_SIZE, stride))\<close> counts them.
\<close>

lemma strided_positions_image:
  assumes "0 < stride"
  shows "strided_positions stride = (\<lambda>i. stride * i) ` {0 .. (ARRAY_SIZE - 1) div stride}"
proof (intro set_eqI iffI)
  fix a assume "a \<in> strided_positions stride"
  then have a: "0 \<le> a" "a < ARRAY_SIZE" "a mod stride = 0"
    by (simp_all add: strided_positions_def)
  then have eq: "a = stride * (a div stride)" by auto
  from a assms have "0 \<le> a div stride" by (simp add: pos_imp_zdiv_nonneg_iff)
  moreover from a have "a div stride \<le> (ARRAY_SIZE - 1) div stride"
    using assms by (intro zdiv_mono1) simp_all
  ultimately show "a \<in> (\<lambda>i. stride * i) ` {0 .. (ARRAY_SIZE - 1) div stride}"
    using eq by (intro image_eqI[where x = "a div stride"]) simp_all
next
  fix a assume "a \<in> (\<lambda>i. stride * i) ` {0 .. (ARRAY_SIZE - 1) div stride}"
  then obtain i where "i \<in> {0 .. (ARRAY_SIZE - 1) div stride}" and ai: "a = stride * i"
    by (rule imageE)
  then have i: "a = stride * i" "0 \<le> i" "i \<le> (ARRAY_SIZE - 1) div stride"
    by simp_all
  from i(3) assms have "stride * i \<le> stride * ((ARRAY_SIZE - 1) div stride)"
    by (simp add: mult_left_mono)
  also have "\<dots> \<le> ARRAY_SIZE - 1"
    using assms by (rule mult_div_le_int)
  finally have "a < ARRAY_SIZE" using i(1) by simp
  with i assms show "a \<in> strided_positions stride"
    by (simp add: strided_positions_def)
qed

lemma card_strided_positions:
  assumes "0 < stride"
  shows "int (card (strided_positions stride)) = (ARRAY_SIZE - 1) div stride + 1"
proof -
  have inj: "inj_on (\<lambda>i. stride * i) {0 .. (ARRAY_SIZE - 1) div stride}"
    using assms by (simp add: inj_on_def)
  have "0 \<le> (ARRAY_SIZE - 1) div stride"
    using assms by (simp add: pos_imp_zdiv_nonneg_iff ARRAY_SIZE_def)
  then show ?thesis
    by (simp add: strided_positions_image[OF assms] card_image[OF inj])
qed

lemma range_len_strided:
  "0 < stride \<Longrightarrow> range_len 0 ARRAY_SIZE stride = Inr (int (card (strided_positions stride)))"
  by (simp add: range_len_def card_strided_positions) (simp add: ARRAY_SIZE_def)

text \<open>
  \<open>randrange\<close> from 0 with a positive step and a positive bound returns a multiple of
  the step below the bound, whatever the raw draw.
\<close>

lemma randrange_aligned:
  assumes "0 < step" and "0 < stop"
  shows "\<exists>b. randrange 0 stop step r = Inr b \<and> 0 \<le> b \<and> b < stop \<and> b mod step = 0"
proof -
  let ?n = "(stop + step - 1) div step"
  have e: "stop + step - 1 = stop - 1 + step" by simp
  have n: "?n = (stop - 1) div step + 1"
    unfolding e using assms by simp
  have "0 \<le> (stop - 1) div step" using assms by (simp add: pos_imp_zdiv_nonneg_iff)
  with n have pos: "0 < ?n" by simp
  let ?i = "int r mod ?n"
  from pos have i: "0 \<le> ?i" "?i < ?n" by simp_all
  with n have "?i \<le> (stop - 1) div step" by simp
  then have "step * ?i \<le> step * ((stop - 1) div step)"
    using assms by (simp add: mult_left_mono)
  also have "\<dots> \<le> stop - 1"
    using assms(1) by (rule mult_div_le_int)
  finally have "step * ?i < stop" by simp
  moreover have "0 \<le> step * ?i" using assms i by simp
  ultimately show ?thesis
    using assms pos by (simp add: randrange_def Let_def)
qed

lemma directed_strided_loop_pairs:
  "0 < stride \<Longrightarrow> k \<le> length draws \<Longrightarrow>
   \<exists>bases. directed_strided_loop k stride draws =
       Some (Inr (concat (map (\<lambda>b. [b, b + stride]) bases))) \<and>
     length bases = k \<and>
     (\<forall>b \<in> set bases. 0 \<le> b \<and> b < ARRAY_SIZE \<and> b mod (2 * stride) = 0)"
proof (induction k arbitrary: draws)
  case 0
  then show ?case by simp
next
  case (Suc k)
  then obtain r rest where d: "draws = r # rest" by (cases draws) auto
  with Suc.prems have "k \<le> length rest" by simp
  from Suc.IH[OF Suc.prems(1) this] obtain bases where
    b: "directed_strided_loop k stride rest =
          Some (Inr (concat (map (\<lambda>b. [b, b + stride]) bases)))"
       "length bases = k"
       "\<forall>b \<in> set bases. 0 \<le> b \<and> b < ARRAY_SIZE \<and> b mod (2 * stride) = 0"
    by blast
  have "0 < 2 * stride" "0 < ARRAY_SIZE" using Suc.prems(1) by (simp_all add: ARRAY_SIZE_def)
  from randrange_aligned[OF this, of r] obtain base where
    base: "randrange 0 ARRAY_SIZE (2 * stride) r = Inr base"
      "0 \<le> base" "base < ARRAY_SIZE" "base mod (2 * stride) = 0"
    by auto
  show ?case
    using d b base by (intro exI[where x = "base # bases"]) simp
qed

text \<open>
  What the random generator guarantees when it returns, for a stride \<open>\<ge> 1\<close>: every
  element of the list is a strided position, and the number of distinct elements is the
  smaller of \<open>MAX_ADDRESSES\<close> and the number of strided positions. The list itself is at
  least that long.
\<close>

lemma random_strided_loop_sound:
  "0 < stride \<Longrightarrow> result_set = set result \<Longrightarrow> set result \<subseteq> strided_positions stride \<Longrightarrow>
   int (card result_set) \<le> n_addresses \<Longrightarrow>
   random_strided_loop stride n_addresses draws result_set result = Some r \<Longrightarrow>
   \<exists>res. r = Inr res \<and> set res \<subseteq> strided_positions stride \<and>
     int (card (set res)) = n_addresses \<and> card (set res) \<le> length res"
proof (induction draws arbitrary: result_set result)
  case Nil
  then show ?case
    by (auto simp: card_length split: if_splits)
next
  case (Cons d draws)
  show ?case
  proof (cases "int (card result_set) < n_addresses")
    case False
    with Cons.prems show ?thesis by (auto simp: card_length)
  next
    case True
    have "0 < ARRAY_SIZE" by (simp add: ARRAY_SIZE_def)
    from randrange_aligned[OF Cons.prems(1) this, of d] obtain b where
      b: "randrange 0 ARRAY_SIZE stride d = Inr b" "0 \<le> b" "b < ARRAY_SIZE" "b mod stride = 0"
      by auto
    then have bp: "b \<in> strided_positions stride" by (simp add: strided_positions_def)
    have 1: "insert b result_set = set (result @ [b])" using Cons.prems(2) by simp
    have 2: "set (result @ [b]) \<subseteq> strided_positions stride" using Cons.prems(3) bp by simp
    have "card (insert b result_set) \<le> Suc (card result_set)"
      by (rule card_insert_le_m1) simp_all
    with True have 3: "int (card (insert b result_set)) \<le> n_addresses" by simp
    from Cons.prems(5) True b
    have 4: "random_strided_loop stride n_addresses draws (insert b result_set) (result @ [b]) = Some r"
      by simp
    from Cons.IH[OF Cons.prems(1) 1 2 3 4] show ?thesis .
  qed
qed

lemma generate_random_strided_addresses_sound:
  assumes "1 \<le> stride" and "generate_random_strided_addresses stride draws = Some r"
  shows "\<exists>res. r = Inr res \<and> set res \<subseteq> strided_positions stride \<and>
     int (card (set res)) = min MAX_ADDRESSES (int (card (strided_positions stride))) \<and>
     card (set res) \<le> length res"
proof -
  from assms(1) have s: "0 < stride" by simp
  have "0 \<le> min MAX_ADDRESSES (int (card (strided_positions stride)))"
    by (simp add: MAX_ADDRESSES_def)
  then have "int (card ({}::int set)) \<le> min MAX_ADDRESSES (int (card (strided_positions stride)))"
    by simp
  moreover from assms(2) have "random_strided_loop stride
      (min MAX_ADDRESSES (int (card (strided_positions stride)))) draws {} [] = Some r"
    by (simp add: generate_random_strided_addresses_def range_len_strided[OF s])
  ultimately show ?thesis
    using random_strided_loop_sound[OF s, of "{}" "[]"] by simp
qed

text \<open>
  C3: at the stride \<open>2^30\<close> there are two strided positions, so two addresses are asked
  for; with the draws 0, 0, 1 the generator returns the list \<open>[0, 0, 2^30]\<close>, which has
  three elements and holds the address 0 twice.
\<close>

theorem random_strided_duplicates:
  "generate_random_strided_addresses 1073741824 [0, 0, 1] = Some (Inr [0, 0, 1073741824]) \<and>
   \<not> distinct [0, 0, 1073741824 :: int] \<and>
   length [0, 0, 1073741824 :: int] = 3 \<and>
   min MAX_ADDRESSES (int (card (strided_positions 1073741824))) = 2"
proof -
  have c: "int (card (strided_positions 1073741824)) = 2"
    by (simp add: card_strided_positions ARRAY_SIZE_def)
  show ?thesis
    by (simp add: c generate_random_strided_addresses_def range_len_def ARRAY_SIZE_def
        MAX_ADDRESSES_def randrange_def)
qed

text \<open>
  C9: for every stride \<open>\<ge> 1\<close>, with the loop count the smaller of half of
  \<open>MAX_ADDRESSES\<close> and the number of distinct strided positions, and draws for every
  round of the loop, the directed generator yields twice the loop count of addresses:
  the pairs \<open>base, base + stride\<close> one after the other, every base a multiple of
  \<open>2 * stride\<close> from 0 below \<open>ARRAY_SIZE\<close>.
\<close>

theorem directed_strided_pairs:
  "1 \<le> stride \<and>
   count = nat (min (MAX_ADDRESSES div 2) (int (card (strided_positions stride)))) \<and>
   count \<le> length draws \<longrightarrow>
     (\<exists>bases. generate_directed_strided_addresses stride draws =
          Some (Inr (concat (map (\<lambda>b. [b, b + stride]) bases))) \<and>
        length bases = count \<and>
        length (concat (map (\<lambda>b. [b, b + stride]) bases)) = 2 * count \<and>
        (\<forall>b \<in> set bases. 0 \<le> b \<and> b < ARRAY_SIZE \<and> b mod (2 * stride) = 0))"
proof
  assume h: "1 \<le> stride \<and>
   count = nat (min (MAX_ADDRESSES div 2) (int (card (strided_positions stride)))) \<and>
   count \<le> length draws"
  then have s: "0 < stride" by simp
  from directed_strided_loop_pairs[OF s, of count draws] h obtain bases where
    b: "directed_strided_loop count stride draws =
          Some (Inr (concat (map (\<lambda>b. [b, b + stride]) bases)))"
       "length bases = count"
       "\<forall>b \<in> set bases. 0 \<le> b \<and> b < ARRAY_SIZE \<and> b mod (2 * stride) = 0"
    by blast
  have len: "length (concat (map (\<lambda>b. [b, b + stride]) bases)) = 2 * length bases"
    by (induction bases) simp_all
  from h b len show "\<exists>bases. generate_directed_strided_addresses stride draws =
          Some (Inr (concat (map (\<lambda>b. [b, b + stride]) bases))) \<and>
        length bases = count \<and>
        length (concat (map (\<lambda>b. [b, b + stride]) bases)) = 2 * count \<and>
        (\<forall>b \<in> set bases. 0 \<le> b \<and> b < ARRAY_SIZE \<and> b mod (2 * stride) = 0)"
    by (intro exI[where x = bases])
       (simp add: generate_directed_strided_addresses_def range_len_strided[OF s])
qed

theorem directed_strided_pairs_witness:
  "(1::int) \<le> 1073741824 \<and>
   (2::nat) = nat (min (MAX_ADDRESSES div 2) (int (card (strided_positions 1073741824)))) \<and>
   (2::nat) \<le> length [0, 5 :: nat] \<and>
   (\<exists>bases. generate_directed_strided_addresses 1073741824 [0, 5] =
        Some (Inr (concat (map (\<lambda>b. [b, b + 1073741824]) bases))) \<and>
      length bases = 2 \<and>
      length (concat (map (\<lambda>b. [b, b + 1073741824]) bases)) = 2 * 2 \<and>
      (\<forall>b \<in> set bases. 0 \<le> b \<and> b < ARRAY_SIZE \<and> b mod (2 * 1073741824) = 0))"
proof -
  have c: "int (card (strided_positions 1073741824)) = 2"
    by (simp add: card_strided_positions ARRAY_SIZE_def)
  show ?thesis
    using directed_strided_pairs [of 1073741824 2 "[0, 5]"]
    by (simp add: c MAX_ADDRESSES_def)
qed

end
